theory Spec2Isabelle
  imports Main
begin

section \<open>Strings and the string built-ins used by \<open>search.js\<close>\<close>

text \<open>
  A JavaScript string is a sequence of 16-bit code units. The model covers the strings
  whose code units all lie in Latin-1, U+0000 to U+00FF: a \<^typ>\<open>string\<close> holds one
  \<^typ>\<open>char\<close> per code unit, and \<open>of_char\<close> gives the value of the code unit. A string
  with a code unit beyond U+00FF is not a value of the model, and nothing is said about
  it.
\<close>

text \<open>
  \<open>s.toLowerCase()\<close>. The Latin-1 characters with a lower-case form of their own are the
  letters A to Z and U+00C0 to U+00DE without the multiplication sign U+00D7; the
  lower-case form is 32 further on. So on Latin-1 the method works code unit by code
  unit and keeps the length of the string. (Beyond Latin-1 this is not so: the lower-case
  form of U+0130 is two code units long.)
\<close>

definition lower_char :: "char \<Rightarrow> char" where
  "lower_char c =
     (let n = (of_char c :: nat)
      in if (65 \<le> n \<and> n \<le> 90) \<or> (192 \<le> n \<and> n \<le> 222 \<and> n \<noteq> 215)
         then char_of (n + 32) else c)"

definition toLowerCase :: "string \<Rightarrow> string" where
  "toLowerCase s = map lower_char s"

text \<open>\<open>s.startsWith(k)\<close>, \<open>s.includes(k)\<close> and \<open>s.indexOf(k)\<close> (\<open>-1\<close> when absent).\<close>

fun startsWith :: "string \<Rightarrow> string \<Rightarrow> bool" where
  "startsWith s [] = True"
| "startsWith [] (k # ks) = False"
| "startsWith (c # cs) (k # ks) = (c = k \<and> startsWith cs ks)"

fun includes_str :: "string \<Rightarrow> string \<Rightarrow> bool" where
  "includes_str [] k = startsWith [] k"
| "includes_str (c # cs) k = (startsWith (c # cs) k \<or> includes_str cs k)"




text \<open>
  \<open>s.trim()\<close> removes leading and trailing white space and line terminators; in Latin-1
  these are TAB, LF, VT, FF, CR, SPACE and the no-break space U+00A0.
\<close>

definition is_space :: "char \<Rightarrow> bool" where
  "is_space c =
     (let n = (of_char c :: nat) in (9 \<le> n \<and> n \<le> 13) \<or> n = 32 \<or> n = 160)"

definition trim :: "string \<Rightarrow> string" where
  "trim s = rev (dropWhile is_space (rev (dropWhile is_space s)))"

section \<open>Documents and scored results\<close>

record document =
  title :: string
  url :: string
  content :: string
  tags :: "string list"
  categories :: "string list"

text \<open>The \<open>matchedIn\<close> object of a result: one flag per searched field.\<close>

record match_flags =
  m_title :: bool
  m_content :: bool
  m_tags :: bool
  m_categories :: bool

text \<open>
  A result is \<open>{...post, score, matchedIn}\<close>: a copy of the fields of the post together
  with the score and the flags.
\<close>

record scored =
  post :: document
  score :: nat
  matchedIn :: match_flags

section \<open>\<open>SearchEngine.search\<close>\<close>

text \<open>The body of the \<open>for (const post of this.searchData)\<close> loop, for one post.\<close>

definition score_post :: "string \<Rightarrow> document \<Rightarrow> scored option" where
  "score_post keywordLower p =
     (let titleMatch = includes_str (toLowerCase (title p)) keywordLower;
          contentMatch = includes_str (toLowerCase (content p)) keywordLower;
          tagMatch = list_ex (\<lambda>tag. includes_str (toLowerCase tag) keywordLower) (tags p);
          categoryMatch = list_ex (\<lambda>cat. includes_str (toLowerCase cat) keywordLower) (categories p)
      in if titleMatch \<or> contentMatch \<or> tagMatch \<or> categoryMatch then
           (let score0 = 0;
                score1 = (if titleMatch then score0 + 10 else score0);
                score2 = (if tagMatch then score1 + 5 else score1);
                score3 = (if categoryMatch then score2 + 3 else score2);
                score4 = (if contentMatch then score3 + 1 else score3)
            in Some \<lparr>post = p, score = score4,
                     matchedIn = \<lparr>m_title = titleMatch, m_content = contentMatch,
                                  m_tags = tagMatch, m_categories = categoryMatch\<rparr>\<rparr>)
         else None)"

text \<open>The loop: results are pushed in the order of the collection.\<close>

fun collect :: "string \<Rightarrow> document list \<Rightarrow> scored list" where
  "collect keywordLower [] = []"
| "collect keywordLower (p # ps) =
     (case score_post keywordLower p of
        Some r \<Rightarrow> r # collect keywordLower ps
      | None \<Rightarrow> collect keywordLower ps)"

text \<open>
  \<open>results.sort((a, b) => b.score - a.score)\<close>. \<open>Array.prototype.sort\<close> is a stable
  comparison sort; it is modelled as insertion sort with the comparator of the call: an
  element goes before the first element that the comparator does not put ahead of it.
\<close>

fun insert_by :: "('a \<Rightarrow> 'a \<Rightarrow> int) \<Rightarrow> 'a \<Rightarrow> 'a list \<Rightarrow> 'a list" where
  "insert_by cmp x [] = [x]"
| "insert_by cmp x (y # ys) =
     (if cmp x y \<le> 0 then x # y # ys else y # insert_by cmp x ys)"

fun sort_by :: "('a \<Rightarrow> 'a \<Rightarrow> int) \<Rightarrow> 'a list \<Rightarrow> 'a list" where
  "sort_by cmp [] = []"
| "sort_by cmp (x # xs) = insert_by cmp x (sort_by cmp xs)"

definition by_score_desc :: "scored \<Rightarrow> scored \<Rightarrow> int" where
  "by_score_desc a b = int (score b) - int (score a)"

definition search :: "string \<Rightarrow> document list \<Rightarrow> scored list" where
  "search keyword searchData =
     (let keywordLower = toLowerCase keyword;
          results = collect keywordLower searchData
      in sort_by by_score_desc results)"

text \<open>The two-document collection of the specification's ranking scenario.\<close>

definition doc_rust :: document where
  "doc_rust = \<lparr>title = ''Rust Guide'', url = ''/rust/'', content = ''Ownership in Rust.'',
                tags = [''systems''], categories = []\<rparr>"

definition doc_go :: document where
  "doc_go = \<lparr>title = ''Go Tutorial'', url = ''/go/'', content = ''... rust mentioned ...'',
              tags = [], categories = []\<rparr>"


section \<open>Case-insensitive occurrences\<close>

text \<open>
  Two characters are the same letter when they are equal or one is an upper-case letter
  (A to Z, or U+00C0 to U+00DE without U+00D7) and the other its lower-case form, 32
  further on. Two strings are equal up to case when they have the same length and hold
  the same letter at every position; \<open>q\<close> occurs in \<open>t\<close> up to case when some contiguous
  part of \<open>t\<close> equals \<open>q\<close> up to case.
\<close>

definition upper_case_letter :: "char \<Rightarrow> bool" where
  "upper_case_letter c =
     (let n = (of_char c :: nat)
      in (65 \<le> n \<and> n \<le> 90) \<or> (192 \<le> n \<and> n \<le> 222 \<and> n \<noteq> 215))"

definition same_letter :: "char \<Rightarrow> char \<Rightarrow> bool" where
  "same_letter a b =
     (a = b \<or>
      (upper_case_letter a \<and> (of_char b :: nat) = of_char a + 32) \<or>
      (upper_case_letter b \<and> (of_char a :: nat) = of_char b + 32))"

definition ci_eq :: "string \<Rightarrow> string \<Rightarrow> bool" where
  "ci_eq a b = (length a = length b \<and> (\<forall>i < length a. same_letter (a ! i) (b ! i)))"

definition ci_occurs :: "string \<Rightarrow> string \<Rightarrow> bool" where
  "ci_occurs q t = (\<exists>pre mid post. t = pre @ mid @ post \<and> ci_eq mid q)"


section \<open>\<open>SearchEngine.getExcerpt\<close>\<close>



section \<open>The widget session\<close>

text \<open>The options that the modelled methods read, and their defaults.\<close>

record options =
  minChars :: nat
  highlightClass :: string

definition default_options :: options where
  "default_options = \<lparr>minChars = 2, highlightClass = ''search-highlight''\<rparr>"

text \<open>
  What the results container \<open>$searchResults\<close> shows: nothing, the loading message, the
  error message, the no-results placeholder, or the list of result items that
  \<open>renderResults\<close> builds from the results and the keyword.
\<close>

datatype view = Empty | LoadingMsg | ErrorMsg | NoResults | Results "scored list" string

text \<open>
  The state of a \<open>SearchEngine\<close>: its fields \<open>searchData\<close> (\<open>None\<close> for \<open>null\<close>),
  \<open>isLoading\<close> and \<open>isOpen\<close>; the \<open>is-open\<close> class of the form wrapper, the value of the
  input element and the content of the results container; whether the timer held in
  \<open>debounceTimer\<close> is pending. Two counters record the calls the engine has made: \<open>fetches\<close>
  counts the calls of \<open>fetch\<close>, \<open>scans\<close> the calls of \<open>search\<close>.
\<close>

record session =
  searchData :: "document list option"
  isLoading :: bool
  isOpen :: bool
  formWrapOpen :: bool
  inputValue :: string
  resultsArea :: view
  debounceTimer :: bool
  fetches :: nat
  scans :: nat

text \<open>The state the constructor leaves: nothing loaded, closed, empty input.\<close>

definition initial :: session where
  "initial = \<lparr>searchData = None, isLoading = False, isOpen = False, formWrapOpen = False,
              inputValue = [], resultsArea = Empty, debounceTimer = False,
              fetches = 0, scans = 0\<rparr>"

text \<open>
  \<open>loadSearchData\<close> up to its first \<open>await\<close>: the flag is set, the loading message is
  shown and the fetch is issued.
\<close>

definition loadSearchData :: "session \<Rightarrow> session" where
  "loadSearchData s = s\<lparr>isLoading := True, resultsArea := LoadingMsg, fetches := fetches s + 1\<rparr>"

definition renderResults :: "scored list \<Rightarrow> string \<Rightarrow> session \<Rightarrow> session" where
  "renderResults results keyword s =
     (if length results = 0 then s\<lparr>resultsArea := NoResults\<rparr>
      else s\<lparr>resultsArea := Results results keyword\<rparr>)"

definition handleSearch :: "options \<Rightarrow> string \<Rightarrow> session \<Rightarrow> session" where
  "handleSearch opts keyword0 s =
     (let keyword = trim keyword0
      in if length keyword < minChars opts then s\<lparr>resultsArea := Empty\<rparr>
         else
           (case searchData s of
              None \<Rightarrow> (if \<not> isLoading s then loadSearchData s else s)
            | Some data \<Rightarrow>
                (let results = search keyword data
                 in renderResults results keyword (s\<lparr>scans := scans s + 1\<rparr>))))"

text \<open>
  How the fetch of \<open>loadSearchData\<close> ends: the fetch is rejected, the response is not
  \<open>ok\<close>, the body is not JSON, or the index arrives; \<open>Loaded\<close> carries the collection that
  \<open>processSearchData\<close> makes of it.
\<close>

datatype load_outcome = FetchRejected | ResponseNotOk | InvalidJson | Loaded "document list"

fun load_failed :: "load_outcome \<Rightarrow> bool" where
  "load_failed (Loaded docs) = False"
| "load_failed outcome = True"

text \<open>
  The rest of \<open>loadSearchData\<close>, run when the fetch has ended: the \<open>try\<close> block on
  success, the \<open>catch\<close> block on failure, and \<open>finally\<close> after either.
\<close>

definition loadSearchData_resume :: "options \<Rightarrow> load_outcome \<Rightarrow> session \<Rightarrow> session" where
  "loadSearchData_resume opts outcome s =
     (let s' =
        (case outcome of
           Loaded docs \<Rightarrow>
             (let s1 = s\<lparr>searchData := Some docs, resultsArea := Empty\<rparr>;
                  currentValue = inputValue s1
              in if currentValue \<noteq> [] \<and> length currentValue \<ge> minChars opts
                 then handleSearch opts currentValue s1 else s1)
         | _ \<Rightarrow> s\<lparr>resultsArea := ErrorMsg\<rparr>)
      in s'\<lparr>isLoading := False\<rparr>)"

definition openSearch :: "session \<Rightarrow> session" where
  "openSearch s =
     (let s1 = s\<lparr>isOpen := True, formWrapOpen := True\<rparr>
      in if searchData s1 = None \<and> \<not> isLoading s1 then loadSearchData s1 else s1)"

definition closeSearch :: "session \<Rightarrow> session" where
  "closeSearch s = s\<lparr>isOpen := False, formWrapOpen := False, inputValue := [],
                      resultsArea := Empty\<rparr>"

definition toggleSearch :: "session \<Rightarrow> session" where
  "toggleSearch s = (if isOpen s then closeSearch s else openSearch s)"

text \<open>
  The events of \<open>bindEvents\<close>, and the end of a fetch. An \<open>input\<close> event carries the new
  value of the input element; its handler clears the timer and sets it again. When the
  timer fires, the callback reads \<open>e.target.value\<close>, the value the element has then.
\<close>

datatype event =
    ToggleClick
  | CloseClick
  | Input string
  | DebounceElapsed
  | EscapeKey
  | ClickOutside
  | LoadSettled load_outcome

fun step :: "options \<Rightarrow> event \<Rightarrow> session \<Rightarrow> session" where
  "step opts ToggleClick s = toggleSearch s"
| "step opts CloseClick s = closeSearch s"
| "step opts (Input v) s = s\<lparr>inputValue := v, debounceTimer := True\<rparr>"
| "step opts DebounceElapsed s =
     (if debounceTimer s then handleSearch opts (inputValue s) (s\<lparr>debounceTimer := False\<rparr>)
      else s)"
| "step opts EscapeKey s = (if isOpen s then closeSearch s else s)"
| "step opts ClickOutside s = (if isOpen s then closeSearch s else s)"
| "step opts (LoadSettled outcome) s =
     (if isLoading s then loadSearchData_resume opts outcome s else s)"

fun run :: "options \<Rightarrow> event list \<Rightarrow> session \<Rightarrow> session" where
  "run opts [] s = s"
| "run opts (e # es) s = run opts es (step opts e s)"

section \<open>\<open>SearchEngine.highlight\<close>\<close>

definition backslash :: char where "backslash = CHR 0x5C"




subsection \<open>The pattern language of \<open>RegExp\<close>\<close>

text \<open>
  The syntax characters of a pattern. Every other character is a pattern character and
  stands for itself; a backslash in front of a syntax character makes it stand for
  itself (an identity escape).
\<close>

definition syntax_chars :: string where
  "syntax_chars = ''^$'' @ [backslash] @ ''.*+?()[]{}|''"

text \<open>
  The model covers the patterns made of one capture group around alternatives of
  atoms (a character, an escaped syntax character or the dot), each with an optional
  quantifier \<open>*\<close>, \<open>+\<close> or \<open>?\<close>, and of the assertions \<open>^\<close> and \<open>$\<close>. For every other
  pattern (a syntax error, or a pattern with classes, braces, inner groups, other
  escapes or lazy quantifiers) the constructor yields \<open>None\<close>.
\<close>

datatype token =
  TChar char | TDot | TStar | TPlus | TQuest | TCaret | TDollar | TBar | TOpen | TClose

definition token_of :: "char \<Rightarrow> token option" where
  "token_of c =
     (if c = CHR ''.'' then Some TDot
      else if c = CHR ''*'' then Some TStar
      else if c = CHR ''+'' then Some TPlus
      else if c = CHR ''?'' then Some TQuest
      else if c = CHR ''^'' then Some TCaret
      else if c = CHR ''$'' then Some TDollar
      else if c = CHR ''|'' then Some TBar
      else if c = CHR ''('' then Some TOpen
      else if c = CHR '')'' then Some TClose
      else if c \<in> set syntax_chars then None
      else Some (TChar c))"

fun tokenize :: "string \<Rightarrow> token list option" where
  "tokenize [] = Some []"
| "tokenize (c # cs) =
     (if c = backslash then
        (case cs of
           [] \<Rightarrow> None
         | d # ds \<Rightarrow>
             if d \<in> set syntax_chars then map_option ((#) (TChar d)) (tokenize ds) else None)
      else
        (case token_of c of
           None \<Rightarrow> None
         | Some t \<Rightarrow> map_option ((#) t) (tokenize cs)))"

datatype atom = Lit char | AnyChar

datatype quant = One | Opt | Star | Plus

datatype rx_term = Atom atom quant | Bol | Eol

fun atom_of :: "token \<Rightarrow> atom option" where
  "atom_of (TChar c) = Some (Lit c)"
| "atom_of TDot = Some AnyChar"
| "atom_of t = None"

fun quantifier :: "token \<Rightarrow> quant option" where
  "quantifier TStar = Some Star"
| "quantifier TPlus = Some Plus"
| "quantifier TQuest = Some Opt"
| "quantifier t = None"

fun parse_alternative :: "token list \<Rightarrow> rx_term list option" where
  "parse_alternative [] = Some []"
| "parse_alternative (TCaret # ts) = map_option ((#) Bol) (parse_alternative ts)"
| "parse_alternative (TDollar # ts) = map_option ((#) Eol) (parse_alternative ts)"
| "parse_alternative (t # ts) =
     (case atom_of t of
        None \<Rightarrow> None
      | Some a \<Rightarrow>
          (case ts of
             [] \<Rightarrow> Some [Atom a One]
           | u # us \<Rightarrow>
               (case quantifier u of
                  Some q \<Rightarrow> map_option ((#) (Atom a q)) (parse_alternative us)
                | None \<Rightarrow> map_option ((#) (Atom a One)) (parse_alternative (u # us)))))"

fun split_bar :: "token list \<Rightarrow> token list list" where
  "split_bar [] = [[]]"
| "split_bar (TBar # ts) = [] # split_bar ts"
| "split_bar (t # ts) = (case split_bar ts of [] \<Rightarrow> [[t]] | a # as \<Rightarrow> (t # a) # as)"

definition parse_group :: "token list \<Rightarrow> rx_term list list option" where
  "parse_group ts =
     (case ts of
        TOpen # rest \<Rightarrow>
          if rest \<noteq> [] \<and> last rest = TClose \<and>
             TOpen \<notin> set (butlast rest) \<and> TClose \<notin> set (butlast rest)
          then those (map parse_alternative (split_bar (butlast rest)))
          else None
      | _ \<Rightarrow> None)"

text \<open>\<open>new RegExp(pattern, 'gi')\<close>: the alternatives inside the capture group.\<close>

definition new_RegExp_gi :: "string \<Rightarrow> rx_term list list option" where
  "new_RegExp_gi pattern =
     (case tokenize pattern of None \<Rightarrow> None | Some ts \<Rightarrow> parse_group ts)"

subsection \<open>Matching\<close>

text \<open>
  With the flag \<open>i\<close> two characters match when their canonical forms are equal. The
  canonical form of a code unit is the code unit of its upper-case form, when that form
  is one code unit long and is not an ASCII character for a character beyond ASCII;
  otherwise it is the code unit itself. In Latin-1 the letters a to z and U+00E0 to
  U+00FE without the division sign U+00F7 have their upper-case form 32 before them, the
  upper-case forms of U+00B5 and U+00FF are U+039C and U+0178, beyond Latin-1, and that
  of U+00DF is two code units long. The dot matches every character but a line
  terminator.
\<close>

definition canonicalize :: "char \<Rightarrow> nat" where
  "canonicalize ch =
     (let n = (of_char ch :: nat)
      in if (97 \<le> n \<and> n \<le> 122) \<or> (224 \<le> n \<and> n \<le> 254 \<and> n \<noteq> 247) then n - 32
         else if n = 181 then 924
         else if n = 255 then 376
         else n)"

fun atom_matches :: "atom \<Rightarrow> char \<Rightarrow> bool" where
  "atom_matches (Lit d) c = (canonicalize c = canonicalize d)"
| "atom_matches AnyChar c = (c \<noteq> CHR 0x0A \<and> c \<noteq> CHR 0x0D)"

text \<open>
  The backtracking matcher: the number of characters that the first successful way of
  matching the terms consumes at the start of \<open>s\<close>; quantifiers are greedy. \<open>at_start\<close>
  says that \<open>s\<close> is the whole input, which is what \<open>^\<close> asserts.
\<close>

fun match_terms :: "bool \<Rightarrow> rx_term list \<Rightarrow> string \<Rightarrow> nat option" where
  "match_terms at_start [] s = Some 0"
| "match_terms at_start (Bol # ts) s = (if at_start then match_terms at_start ts s else None)"
| "match_terms at_start (Eol # ts) s = (if s = [] then match_terms at_start ts s else None)"
| "match_terms at_start (Atom a One # ts) s =
     (case s of
        [] \<Rightarrow> None
      | c # cs \<Rightarrow> if atom_matches a c then map_option Suc (match_terms False ts cs) else None)"
| "match_terms at_start (Atom a Opt # ts) s =
     (case s of
        [] \<Rightarrow> match_terms at_start ts s
      | c # cs \<Rightarrow>
          if atom_matches a c then
            (case match_terms False ts cs of
               Some n \<Rightarrow> Some (Suc n)
             | None \<Rightarrow> match_terms at_start ts s)
          else match_terms at_start ts s)"
| "match_terms at_start (Atom a Star # ts) s =
     (case s of
        [] \<Rightarrow> match_terms at_start ts s
      | c # cs \<Rightarrow>
          if atom_matches a c then
            (case match_terms False (Atom a Star # ts) cs of
               Some n \<Rightarrow> Some (Suc n)
             | None \<Rightarrow> match_terms at_start ts s)
          else match_terms at_start ts s)"
| "match_terms at_start (Atom a Plus # ts) s =
     (case s of
        [] \<Rightarrow> None
      | c # cs \<Rightarrow>
          if atom_matches a c then map_option Suc (match_terms False (Atom a Star # ts) cs)
          else None)"

fun match_alternatives :: "bool \<Rightarrow> rx_term list list \<Rightarrow> string \<Rightarrow> nat option" where
  "match_alternatives at_start [] s = None"
| "match_alternatives at_start (alt # alts) s =
     (case match_terms at_start alt s of
        Some n \<Rightarrow> Some n
      | None \<Rightarrow> match_alternatives at_start alts s)"

subsection \<open>\<open>String.prototype.replace\<close> with a global pattern\<close>

text \<open>
  The replacement string: \<open>$1\<close> stands for the text of the capture group, which here is
  the whole match. The other \<open>$\<close> forms are outside the model (\<open>None\<close>).
\<close>

datatype rep_item = RLit char | RGroup1


fun expand :: "rep_item list \<Rightarrow> string \<Rightarrow> string" where
  "expand [] m = []"
| "expand (RLit c # items) m = c # expand items m"
| "expand (RGroup1 # items) m = m @ expand items m"

text \<open>
  The scan of a global replace: a match is tried at the current index; after a match
  the scan goes on behind it, after an empty match or a failure it copies one character
  and goes on.
\<close>

fun replace_global :: "rx_term list list \<Rightarrow> rep_item list \<Rightarrow> bool \<Rightarrow> string \<Rightarrow> string" where
  "replace_global alts items at_start [] =
     (case match_alternatives at_start alts [] of
        None \<Rightarrow> []
      | Some n \<Rightarrow> expand items [])"
| "replace_global alts items at_start (c # cs) =
     (case match_alternatives at_start alts (c # cs) of
        None \<Rightarrow> c # replace_global alts items False cs
      | Some 0 \<Rightarrow> expand items [] @ c # replace_global alts items False cs
      | Some (Suc k) \<Rightarrow>
          expand items (take (Suc k) (c # cs)) @ replace_global alts items False (drop k cs))"



subsection \<open>The marking that the specification describes\<close>









text \<open>A session that is open and has loaded the two-document collection.\<close>

definition ready_session :: session where
  "ready_session =
     run default_options [ToggleClick, LoadSettled (Loaded [doc_rust, doc_go])] initial"

section \<open>Facts about the string built-ins\<close>

lemma of_char_lower:
  "(of_char (lower_char c) :: nat)
     = (if upper_case_letter c then of_char c + 32 else of_char c)"
proof -
  have "(of_char c :: nat) < 256" by simp
  then show ?thesis
    unfolding lower_char_def upper_case_letter_def Let_def by (simp add: of_char_of) 
qed

lemma upper_not_lowered: "upper_case_letter c \<Longrightarrow> \<not> upper_case_letter (lower_char c)"
proof -
  assume u: "upper_case_letter c"
  then have "(of_char (lower_char c) :: nat) = of_char c + 32" by (simp add: of_char_lower)
  with u show ?thesis unfolding upper_case_letter_def [of "lower_char c"] Let_def
    unfolding upper_case_letter_def Let_def by arith
qed

lemma same_letter_iff: "same_letter a b \<longleftrightarrow> lower_char a = lower_char b"
proof -
  have e: "lower_char a = lower_char b
      \<longleftrightarrow> (of_char (lower_char a) :: nat) = of_char (lower_char b)"
    by simp
  have i: "a = b \<longleftrightarrow> (of_char a :: nat) = of_char b" by simp
  have la: "(of_char (lower_char a) :: nat) = of_char a + 32" if "upper_case_letter a" for a
    using that by (simp add: of_char_lower)
  have na: "(of_char (lower_char a) :: nat) = of_char a" if "\<not> upper_case_letter a" for a
    using that by (simp add: of_char_lower)
  show ?thesis
  proof (cases "upper_case_letter a"; cases "upper_case_letter b")
    assume a: "upper_case_letter a" and b: "upper_case_letter b"
    have "\<not> upper_case_letter (lower_char a)" "\<not> upper_case_letter (lower_char b)"
      using a b by (simp_all add: upper_not_lowered)
    then have "(of_char b :: nat) \<noteq> of_char a + 32" "(of_char a :: nat) \<noteq> of_char b + 32"
      using a b la [OF a] la [OF b] by (metis of_char_eq_iff)+
    then show ?thesis unfolding same_letter_def e i la [OF a] la [OF b] by auto
  next
    assume a: "upper_case_letter a" and b: "\<not> upper_case_letter b"
    then have "a \<noteq> b" by auto
    then show ?thesis unfolding same_letter_def e la [OF a] na [OF b] using a b by auto
  next
    assume a: "\<not> upper_case_letter a" and b: "upper_case_letter b"
    then have "a \<noteq> b" by auto
    then show ?thesis unfolding same_letter_def e na [OF a] la [OF b] using a b by auto
  next
    assume a: "\<not> upper_case_letter a" and b: "\<not> upper_case_letter b"
    then show ?thesis unfolding same_letter_def e i na [OF a] na [OF b] by auto
  qed
qed

lemma ci_eq_map [code]: "ci_eq a b \<longleftrightarrow> map lower_char a = map lower_char b"
  by (auto simp: ci_eq_def same_letter_iff list_eq_iff_nth_eq)

lemma startsWith_iff: "startsWith s k \<longleftrightarrow> (\<exists>suf. s = k @ suf)"
  by (induction s k rule: startsWith.induct) auto

lemma includes_iff: "includes_str s k \<longleftrightarrow> (\<exists>pre suf. s = pre @ k @ suf)"
proof (induction s)
  case Nil
  then show ?case by (auto simp: startsWith_iff)
next
  case (Cons c cs)
  show ?case
  proof
    assume "includes_str (c # cs) k"
    then consider "startsWith (c # cs) k" | "includes_str cs k" by auto
    then show "\<exists>pre suf. c # cs = pre @ k @ suf"
    proof cases
      case 1
      then obtain suf where "c # cs = k @ suf" by (auto simp: startsWith_iff)
      then have "c # cs = [] @ k @ suf" by simp
      then show ?thesis by blast
    next
      case 2
      then obtain pre suf where "cs = pre @ k @ suf" using Cons.IH by auto
      then have "c # cs = (c # pre) @ k @ suf" by simp
      then show ?thesis by blast
    qed
  next
    assume "\<exists>pre suf. c # cs = pre @ k @ suf"
    then obtain pre suf where e: "c # cs = pre @ k @ suf" by auto
    show "includes_str (c # cs) k"
    proof (cases pre)
      case Nil
      with e have "startsWith (c # cs) k" by (auto simp: startsWith_iff)
      then show ?thesis by simp
    next
      case (Cons a pre')
      with e have "cs = pre' @ k @ suf" by simp
      then have "includes_str cs k" using Cons.IH by auto
      then show ?thesis by simp
    qed
  qed
qed

lemma map_eq_split3:
  "map f t = pre @ k @ suf \<Longrightarrow>
     \<exists>p m r. t = p @ m @ r \<and> map f p = pre \<and> map f m = k \<and> map f r = suf"
  by (metis map_eq_append_conv)

lemma includes_lower_iff: "includes_str (toLowerCase t) (toLowerCase q) \<longleftrightarrow> ci_occurs q t"
proof
  assume "includes_str (toLowerCase t) (toLowerCase q)"
  then obtain pre suf where "map lower_char t = pre @ map lower_char q @ suf"
    by (auto simp: includes_iff toLowerCase_def)
  from map_eq_split3 [OF this] obtain p m r
    where "t = p @ m @ r" "map lower_char m = map lower_char q" by blast
  then show "ci_occurs q t" by (auto simp: ci_occurs_def ci_eq_map)
next
  assume "ci_occurs q t"
  then obtain p m r where "t = p @ m @ r" "map lower_char m = map lower_char q"
    by (auto simp: ci_occurs_def ci_eq_map)
  then have "map lower_char t = map lower_char p @ map lower_char q @ map lower_char r"
    by simp
  then show "includes_str (toLowerCase t) (toLowerCase q)"
    unfolding includes_iff toLowerCase_def by blast
qed










section \<open>Properties of \<open>search\<close>\<close>


lemma score_post_post: "score_post kl d = Some r \<Longrightarrow> post r = d"
  by (auto simp: score_post_def Let_def split: if_splits)

lemma score_post_score:
  "score_post kl d = Some r \<Longrightarrow>
     score r = 10 * of_bool (m_title (matchedIn r)) + 5 * of_bool (m_tags (matchedIn r))
             + 3 * of_bool (m_categories (matchedIn r)) + 1 * of_bool (m_content (matchedIn r))"
  by (auto simp: score_post_def Let_def split: if_splits)

lemma score_post_flags:
  "score_post (toLowerCase q) d = Some r \<Longrightarrow>
     m_title (matchedIn r) = ci_occurs q (title d) \<and>
     m_content (matchedIn r) = ci_occurs q (content d) \<and>
     m_tags (matchedIn r) = (\<exists>t \<in> set (tags d). ci_occurs q t) \<and>
     m_categories (matchedIn r) = (\<exists>c \<in> set (categories d). ci_occurs q c)"
  by (auto simp: score_post_def Let_def list_ex_iff includes_lower_iff split: if_splits)

lemma set_collect: "set (collect kl ds) = {r. \<exists>d \<in> set ds. score_post kl d = Some r}"
  by (induction ds) (auto split: option.splits)

lemma set_insert_by: "set (insert_by cmp x ys) = insert x (set ys)"
  by (induction ys) auto

lemma set_sort_by: "set (sort_by cmp xs) = set xs"
  by (induction xs) (auto simp: set_insert_by)

lemma set_search: "set (search q ds) = {r. \<exists>d \<in> set ds. score_post (toLowerCase q) d = Some r}"
  by (simp add: search_def set_sort_by set_collect)

lemma sorted_insert_by:
  "sorted_wrt (\<lambda>a b. score b \<le> score a) ys \<Longrightarrow>
     sorted_wrt (\<lambda>a b. score b \<le> score a) (insert_by by_score_desc x ys)"
  by (induction ys) (auto simp: set_insert_by by_score_desc_def)

lemma sorted_sort_by: "sorted_wrt (\<lambda>a b. score b \<le> score a) (sort_by by_score_desc xs)"
  by (induction xs) (auto intro: sorted_insert_by)

lemma filter_insert_by_other:
  "score x \<noteq> k \<Longrightarrow>
     filter (\<lambda>r. score r = k) (insert_by by_score_desc x ys) = filter (\<lambda>r. score r = k) ys"
  by (induction ys) auto

lemma filter_insert_by_same:
  "sorted_wrt (\<lambda>a b. score b \<le> score a) ys \<Longrightarrow>
     filter (\<lambda>r. score r = score x) (insert_by by_score_desc x ys)
       = x # filter (\<lambda>r. score r = score x) ys"
proof (induction ys)
  case Nil
  then show ?case by simp
next
  case (Cons y ys)
  show ?case
  proof (cases "by_score_desc x y \<le> 0")
    case True
    then show ?thesis by simp
  next
    case False
    then have "score y \<noteq> score x" by (simp add: by_score_desc_def)
    with False Cons show ?thesis by simp
  qed
qed

lemma filter_sort_by:
  "filter (\<lambda>r. score r = k) (sort_by by_score_desc xs) = filter (\<lambda>r. score r = k) xs"
proof (induction xs)
  case Nil
  then show ?case by simp
next
  case (Cons x xs)
  show ?case
  proof (cases "score x = k")
    case True
    then show ?thesis
      using Cons filter_insert_by_same [OF sorted_sort_by, of x xs] by auto
  next
    case False
    then show ?thesis using Cons by (simp add: filter_insert_by_other)
  qed
qed




text \<open>
  C2. The score of every result is the sum of the weights of its match flags: 10 for the
  title, 5 for the tags, 3 for the categories and 1 for the content, where the flags say
  in which fields the keyword occurs up to case. So a result that matches in title and
  content scores strictly higher than any result that matches in the content alone.
\<close>

theorem search_score_additive:
  "r \<in> set (search q coll) \<Longrightarrow>
     score r = 10 * of_bool (m_title (matchedIn r)) + 5 * of_bool (m_tags (matchedIn r))
             + 3 * of_bool (m_categories (matchedIn r)) + 1 * of_bool (m_content (matchedIn r)) \<and>
     m_title (matchedIn r) = ci_occurs q (title (post r)) \<and>
     m_content (matchedIn r) = ci_occurs q (content (post r)) \<and>
     m_tags (matchedIn r) = (\<exists>t \<in> set (tags (post r)). ci_occurs q t) \<and>
     m_categories (matchedIn r) = (\<exists>c \<in> set (categories (post r)). ci_occurs q c) \<and>
     (\<forall>r' q' coll'.
        r' \<in> set (search q' coll') \<and>
        m_title (matchedIn r) \<and> m_content (matchedIn r) \<and>
        m_content (matchedIn r') \<and> \<not> m_title (matchedIn r') \<and>
        \<not> m_tags (matchedIn r') \<and> \<not> m_categories (matchedIn r')
        \<longrightarrow> score r' < score r)"
proof -
  assume "r \<in> set (search q coll)"
  then obtain d where r: "score_post (toLowerCase q) d = Some r"
    by (auto simp: set_search)
  have p: "post r = d" using r by (rule score_post_post)
  have s: "score r = 10 * of_bool (m_title (matchedIn r)) + 5 * of_bool (m_tags (matchedIn r))
             + 3 * of_bool (m_categories (matchedIn r)) + 1 * of_bool (m_content (matchedIn r))"
    using r by (rule score_post_score)
  have cmp: "score r' < score r"
    if "r' \<in> set (search q' coll')"
      and "m_title (matchedIn r)" "m_content (matchedIn r)"
      and "m_content (matchedIn r')" "\<not> m_title (matchedIn r')"
      and "\<not> m_tags (matchedIn r')" "\<not> m_categories (matchedIn r')"
    for r' q' coll'
  proof -
    from that(1) obtain d' where "score_post (toLowerCase q') d' = Some r'"
      by (auto simp: set_search)
    then have "score r' = 10 * of_bool (m_title (matchedIn r')) + 5 * of_bool (m_tags (matchedIn r'))
             + 3 * of_bool (m_categories (matchedIn r')) + 1 * of_bool (m_content (matchedIn r'))"
      by (rule score_post_score)
    with that s show ?thesis by simp
  qed
  show ?thesis using s score_post_flags [OF r] cmp unfolding p by blast
qed

theorem search_score_additive_witness:
  "(let r = \<lparr>post = doc_rust, score = 11,
              matchedIn = \<lparr>m_title = True, m_content = True, m_tags = False,
                           m_categories = False\<rparr>\<rparr>;
        r' = \<lparr>post = doc_go, score = 1,
               matchedIn = \<lparr>m_title = False, m_content = True, m_tags = False,
                            m_categories = False\<rparr>\<rparr>
    in search ''rust'' [doc_rust, doc_go] = [r, r'] \<and>
       score r = 10 * of_bool (m_title (matchedIn r)) + 5 * of_bool (m_tags (matchedIn r))
             + 3 * of_bool (m_categories (matchedIn r)) + 1 * of_bool (m_content (matchedIn r)) \<and>
       score r' < score r)"
proof -
  define r where "r = \<lparr>post = doc_rust, score = 11,
              matchedIn = \<lparr>m_title = True, m_content = True, m_tags = False,
                           m_categories = False\<rparr>\<rparr>"
  define r' where "r' = \<lparr>post = doc_go, score = 1,
               matchedIn = \<lparr>m_title = False, m_content = True, m_tags = False,
                            m_categories = False\<rparr>\<rparr>"
  have e: "search ''rust'' [doc_rust, doc_go] = [r, r']"
    unfolding r_def r'_def by code_simp
  have h: "r \<in> set (search ''rust'' [doc_rust, doc_go])"
    and h': "r' \<in> set (search ''rust'' [doc_rust, doc_go])"
    by (simp_all add: e)
  have f: "m_title (matchedIn r) \<and> m_content (matchedIn r) \<and>
        m_content (matchedIn r') \<and> \<not> m_title (matchedIn r') \<and>
        \<not> m_tags (matchedIn r') \<and> \<not> m_categories (matchedIn r')"
    by (simp add: r_def r'_def)
  have "score r' < score r"
    using search_score_additive [OF h] h' f by blast
  moreover have "score r = 10 * of_bool (m_title (matchedIn r)) + 5 * of_bool (m_tags (matchedIn r))
             + 3 * of_bool (m_categories (matchedIn r)) + 1 * of_bool (m_content (matchedIn r))"
    using search_score_additive [OF h] by blast
  ultimately show ?thesis using e unfolding Let_def r_def r'_def by blast
qed

text \<open>
  C3. The result of \<open>search\<close> is in descending order of score, and the results of any one
  score stand in the order of their posts in the collection: the posts of the results
  with score \<open>k\<close> are the documents of the collection that match with score \<open>k\<close>, in
  collection order.
\<close>

theorem search_sorted_stable:
  "sorted_wrt (\<lambda>a b. score b \<le> score a) (search q coll) \<and>
   map post (filter (\<lambda>r. score r = k) (search q coll))
     = filter (\<lambda>d. case score_post (toLowerCase q) d of
                      Some r \<Rightarrow> score r = k | None \<Rightarrow> False) coll"
proof
  show "sorted_wrt (\<lambda>a b. score b \<le> score a) (search q coll)"
    by (simp add: search_def sorted_sort_by)
next
  have "map post (filter (\<lambda>r. score r = k) (collect kl ds))
      = filter (\<lambda>d. case score_post kl d of Some r \<Rightarrow> score r = k | None \<Rightarrow> False) ds"
    for kl ds
    by (induction ds) (auto split: option.splits dest: score_post_post)
  then show "map post (filter (\<lambda>r. score r = k) (search q coll))
     = filter (\<lambda>d. case score_post (toLowerCase q) d of
                      Some r \<Rightarrow> score r = k | None \<Rightarrow> False) coll"
    by (simp add: search_def filter_sort_by)
qed


theorem search_sorted_stable_witness:
  "map (\<lambda>r. (url (post r), score r))
       (search ''rust'' [doc_go, doc_rust, doc_go\<lparr>url := ''/go2/''\<rparr>])
     = [(''/rust/'', 11), (''/go/'', 1), (''/go2/'', 1)] \<and>
   map post (filter (\<lambda>r. score r = 1)
       (search ''rust'' [doc_go, doc_rust, doc_go\<lparr>url := ''/go2/''\<rparr>]))
     = [doc_go, doc_go\<lparr>url := ''/go2/''\<rparr>]"
proof -
  have e: "map (\<lambda>r. (url (post r), score r))
       (search ''rust'' [doc_go, doc_rust, doc_go\<lparr>url := ''/go2/''\<rparr>])
     = [(''/rust/'', 11), (''/go/'', 1), (''/go2/'', 1)]"
    by code_simp
  have f: "filter (\<lambda>d. case score_post (toLowerCase ''rust'') d of
                      Some r \<Rightarrow> score r = 1 | None \<Rightarrow> False)
              [doc_go, doc_rust, doc_go\<lparr>url := ''/go2/''\<rparr>]
     = [doc_go, doc_go\<lparr>url := ''/go2/''\<rparr>]"
    by code_simp
  from search_sorted_stable [of "''rust''" "[doc_go, doc_rust, doc_go\<lparr>url := ''/go2/''\<rparr>]" 1]
  have "map post (filter (\<lambda>r. score r = 1)
       (search ''rust'' [doc_go, doc_rust, doc_go\<lparr>url := ''/go2/''\<rparr>]))
     = [doc_go, doc_go\<lparr>url := ''/go2/''\<rparr>]"
    unfolding f by blast
  with e show ?thesis by (intro conjI)
qed

section \<open>Properties of \<open>getExcerpt\<close>\<close>










section \<open>Properties of the widget session\<close>

lemma length_trim_le: "length (trim q) \<le> length q"
proof -
  have "length (trim q) \<le> length (dropWhile is_space q)"
    unfolding trim_def using length_dropWhile_le [of is_space "rev (dropWhile is_space q)"]
    by simp
  also have "\<dots> \<le> length q" by (rule length_dropWhile_le)
  finally show ?thesis .
qed

lemma dropWhile_snoc_keeps: "\<not> P x \<Longrightarrow> \<exists>w. dropWhile P (ys @ [x]) = w @ [x]"
  by (induction ys) auto

lemma dropWhile_trim: "dropWhile is_space (trim q) = trim q"
proof (cases "dropWhile is_space q")
  case Nil
  show ?thesis unfolding trim_def Nil by simp
next
  case (Cons x t)
  then have nx: "\<not> is_space x" using hd_dropWhile [of is_space q] by auto
  obtain w where "dropWhile is_space (rev t @ [x]) = w @ [x]"
    using dropWhile_snoc_keeps [of is_space x "rev t"] nx by blast
  with Cons nx show ?thesis by (simp add: trim_def)
qed

lemma trim_idem: "trim (trim q) = trim q"
proof -
  have "rev (trim q) = dropWhile is_space (rev (dropWhile is_space q))"
    by (simp add: trim_def)
  then have "dropWhile is_space (rev (trim q)) = rev (trim q)"
    by (simp add: dropWhile_idem)
  then show ?thesis unfolding trim_def [of "trim q"] dropWhile_trim by simp
qed

lemma trim_decomp:
  "\<exists>a b. q = a @ trim q @ b \<and> (\<forall>c \<in> set a. is_space c) \<and> (\<forall>c \<in> set b. is_space c)"
proof -
  define t where "t = dropWhile is_space q"
  define a where "a = takeWhile is_space q"
  define b where "b = rev (takeWhile is_space (rev t))"
  have "rev (takeWhile is_space (rev t) @ dropWhile is_space (rev t)) = rev (rev t)"
    by (simp only: takeWhile_dropWhile_id)
  then have "rev (dropWhile is_space (rev t)) @ rev (takeWhile is_space (rev t)) = t"
    by (simp only: rev_append rev_rev_ident)
  then have "t = trim q @ b" by (simp only: trim_def b_def t_def)
  moreover have "q = a @ t" by (simp add: a_def t_def)
  ultimately have "q = a @ trim q @ b" by simp
  moreover have "\<forall>c \<in> set a. is_space c" using set_takeWhileD by (fastforce simp: a_def)
  moreover have "\<forall>c \<in> set b. is_space c" using set_takeWhileD by (fastforce simp: b_def)
  ultimately show ?thesis by blast
qed

lemma trim_ends: "trim q \<noteq> [] \<Longrightarrow> \<not> is_space (hd (trim q)) \<and> \<not> is_space (last (trim q))"
proof -
  assume ne: "trim q \<noteq> []"
  have "\<not> is_space (hd (dropWhile is_space (trim q)))"
    using ne hd_dropWhile [of is_space "trim q"] by (simp add: dropWhile_trim)
  then have h: "\<not> is_space (hd (trim q))" by (simp add: dropWhile_trim)
  have r: "dropWhile is_space (rev (dropWhile is_space q)) \<noteq> []" using ne by (simp add: trim_def)
  have "last (trim q) = hd (dropWhile is_space (rev (dropWhile is_space q)))"
    using r by (simp add: trim_def last_rev)
  with hd_dropWhile [OF r] h show ?thesis by simp
qed

lemma is_space_chars:
  "is_space c \<longleftrightarrow>
     c \<in> set [CHR 0x09, CHR 0x0A, CHR 0x0B, CHR 0x0C, CHR 0x0D, CHR 0x20, CHR 0xA0]"
proof
  have k: "char_of (9 :: nat) = CHR 0x09" "char_of (10 :: nat) = CHR 0x0A"
    "char_of (11 :: nat) = CHR 0x0B" "char_of (12 :: nat) = CHR 0x0C"
    "char_of (13 :: nat) = CHR 0x0D" "char_of (32 :: nat) = CHR 0x20"
    "char_of (160 :: nat) = CHR 0xA0"
    by (rule of_char_eqI [where 'a = nat], simp)+
  assume "is_space c"
  then have "(of_char c :: nat) \<in> {9, 10, 11, 12, 13, 32, 160}"
    unfolding is_space_def Let_def by auto
  then have "char_of (of_char c :: nat) \<in> char_of ` {9, 10, 11, 12, 13, 32, 160 :: nat}"
    by (rule imageI)
  then have "c \<in> {CHR 0x09, CHR 0x0A, CHR 0x0B, CHR 0x0C, CHR 0x0D, CHR 0x20, CHR 0xA0}"
    by (simp only: image_insert image_empty k char_of_char)
  then show "c \<in> set [CHR 0x09, CHR 0x0A, CHR 0x0B, CHR 0x0C, CHR 0x0D, CHR 0x20, CHR 0xA0]"
    by simp
next
  assume "c \<in> set [CHR 0x09, CHR 0x0A, CHR 0x0B, CHR 0x0C, CHR 0x0D, CHR 0x20, CHR 0xA0]"
  then show "is_space c" by (auto simp: is_space_def)
qed

lemma handleSearch_trim: "handleSearch opts (trim q) s = handleSearch opts q s"
  by (simp add: handleSearch_def trim_idem)

text \<open>
  C10. \<open>handleSearch\<close> works on the trimmed keyword: the keyword and its trimmed form
  give the same state, so two keywords with the same trimmed form give the same state,
  and a keyword whose trimmed form is shorter than \<open>minChars\<close> only clears the results
  area, whatever its own length. The trimmed form is the keyword without a leading and a
  trailing run of white space, and neither starts nor ends with white space. In
  Latin-1 the white space characters are TAB, LF, VT, FF, CR, SPACE and U+00A0.
\<close>

theorem handleSearch_uses_trimmed:
  "handleSearch opts q s = handleSearch opts (trim q) s \<and>
   (trim q = trim q' \<longrightarrow> handleSearch opts q s = handleSearch opts q' s) \<and>
   (length (trim q) < minChars opts \<longrightarrow>
      handleSearch opts q s = s\<lparr>resultsArea := Empty\<rparr>) \<and>
   (\<exists>a b. q = a @ trim q @ b \<and> (\<forall>c \<in> set a. is_space c) \<and> (\<forall>c \<in> set b. is_space c)) \<and>
   (trim q \<noteq> [] \<longrightarrow> \<not> is_space (hd (trim q)) \<and> \<not> is_space (last (trim q))) \<and>
   (\<forall>c. is_space c \<longleftrightarrow>
      c \<in> set [CHR 0x09, CHR 0x0A, CHR 0x0B, CHR 0x0C, CHR 0x0D, CHR 0x20, CHR 0xA0])"
proof (intro conjI impI)
  show "\<forall>c. is_space c \<longleftrightarrow>
      c \<in> set [CHR 0x09, CHR 0x0A, CHR 0x0B, CHR 0x0C, CHR 0x0D, CHR 0x20, CHR 0xA0]"
    using is_space_chars by blast
  show "handleSearch opts q s = handleSearch opts (trim q) s"
    by (simp only: handleSearch_trim)
  show "handleSearch opts q s = handleSearch opts q' s" if "trim q = trim q'"
    using that handleSearch_trim [of opts q s] handleSearch_trim [of opts q' s] by simp
  show "handleSearch opts q s = s\<lparr>resultsArea := Empty\<rparr>" if "length (trim q) < minChars opts"
    using that by (simp add: handleSearch_def)
  show "\<exists>a b. q = a @ trim q @ b \<and> (\<forall>c \<in> set a. is_space c) \<and> (\<forall>c \<in> set b. is_space c)"
    by (rule trim_decomp)
  show "\<not> is_space (hd (trim q))" if "trim q \<noteq> []" using trim_ends [OF that] by simp
  show "\<not> is_space (last (trim q))" if "trim q \<noteq> []" using trim_ends [OF that] by simp
qed

text \<open>
  C6. For a keyword shorter than \<open>minChars\<close>, \<open>handleSearch\<close> clears the results area
  and does nothing else: \<open>search\<close> is not called and no fetch is issued. The same holds
  when the keyword arrives through the input event and the debounce timer.
\<close>

theorem handleSearch_below_minChars:
  "length q < minChars opts \<Longrightarrow>
     handleSearch opts q s = s\<lparr>resultsArea := Empty\<rparr> \<and>
     resultsArea (handleSearch opts q s) = Empty \<and>
     scans (handleSearch opts q s) = scans s \<and>
     fetches (handleSearch opts q s) = fetches s \<and>
     searchData (handleSearch opts q s) = searchData s \<and>
     (let s' = run opts [Input q, DebounceElapsed] s
      in resultsArea s' = Empty \<and> scans s' = scans s \<and> fetches s' = fetches s)"
proof -
  assume "length q < minChars opts"
  then have "length (trim q) < minChars opts"
    using length_trim_le [of q] by simp
  then have "handleSearch opts q x = x\<lparr>resultsArea := Empty\<rparr>" for x
    by (simp add: handleSearch_def)
  then show ?thesis by simp
qed

theorem handleSearch_below_minChars_witness:
  "length ''r'' < minChars default_options \<and>
   resultsArea (run default_options [Input ''rust'', DebounceElapsed] ready_session)
     = Results (search ''rust'' [doc_rust, doc_go]) ''rust'' \<and>
   resultsArea (run default_options [Input ''r'', DebounceElapsed]
      (run default_options [Input ''rust'', DebounceElapsed] ready_session)) = Empty \<and>
   scans (run default_options [Input ''r'', DebounceElapsed]
      (run default_options [Input ''rust'', DebounceElapsed] ready_session)) = 1"
proof -
  define s where "s = run default_options [Input ''rust'', DebounceElapsed] ready_session"
  have l: "length ''r'' < minChars default_options" by code_simp
  have v: "resultsArea s = Results (search ''rust'' [doc_rust, doc_go]) ''rust''"
    unfolding s_def by code_simp
  have c: "scans s = 1" unfolding s_def by code_simp
  have "resultsArea (run default_options [Input ''r'', DebounceElapsed] s) = Empty \<and>
      scans (run default_options [Input ''r'', DebounceElapsed] s) = scans s"
    using handleSearch_below_minChars [OF l, of s] unfolding Let_def by blast
  with l v c show ?thesis unfolding s_def [symmetric] by simp
qed

theorem handleSearch_uses_trimmed_witness:
  "minChars default_options \<le> length ([CHR 0xA0] @ ''a'' @ [CHR 0x09]) \<and>
   trim ([CHR 0xA0] @ ''a'' @ [CHR 0x09]) = ''a'' \<and>
   length (trim ([CHR 0xA0] @ ''a'' @ [CHR 0x09])) < minChars default_options \<and>
   handleSearch default_options ([CHR 0xA0] @ ''a'' @ [CHR 0x09]) ready_session
     = ready_session\<lparr>resultsArea := Empty\<rparr> \<and>
   trim ''  rust '' = trim ''rust'' \<and>
   handleSearch default_options ''  rust '' ready_session
     = handleSearch default_options ''rust'' ready_session \<and>
   resultsArea (handleSearch default_options ''  rust '' ready_session)
     = Results (search ''rust'' [doc_rust, doc_go]) ''rust''"
proof -
  have 1: "minChars default_options \<le> length ([CHR 0xA0] @ ''a'' @ [CHR 0x09])" by code_simp
  have 0: "trim ([CHR 0xA0] @ ''a'' @ [CHR 0x09]) = ''a''" by code_simp
  have 2: "length (trim ([CHR 0xA0] @ ''a'' @ [CHR 0x09])) < minChars default_options"
    by code_simp
  have 3: "trim ''  rust '' = trim ''rust''" by code_simp
  have 4: "resultsArea (handleSearch default_options ''rust'' ready_session)
     = Results (search ''rust'' [doc_rust, doc_go]) ''rust''" by code_simp
  have 5: "handleSearch default_options ([CHR 0xA0] @ ''a'' @ [CHR 0x09]) ready_session
      = ready_session\<lparr>resultsArea := Empty\<rparr>"
    using handleSearch_uses_trimmed
      [of default_options "[CHR 0xA0] @ ''a'' @ [CHR 0x09]" ready_session] 2
    by blast
  have 6: "handleSearch default_options ''  rust '' ready_session
     = handleSearch default_options ''rust'' ready_session"
    using handleSearch_uses_trimmed [of default_options "''  rust ''" ready_session "''rust''"] 3
    by blast
  from 0 1 2 3 5 6 show ?thesis unfolding 6 4 by (intro conjI) simp_all
qed

lemma handleSearch_loading_inv:
  "isLoading s \<longrightarrow> searchData s = None \<Longrightarrow>
     isLoading (handleSearch opts q s) \<longrightarrow> searchData (handleSearch opts q s) = None"
  by (auto simp: handleSearch_def Let_def loadSearchData_def renderResults_def
      split: option.splits)

lemma step_loading_inv:
  "isLoading s \<longrightarrow> searchData s = None \<Longrightarrow>
     isLoading (step opts e s) \<longrightarrow> searchData (step opts e s) = None"
proof (cases e)
  case DebounceElapsed
  assume inv: "isLoading s \<longrightarrow> searchData s = None"
  then have "isLoading (s\<lparr>debounceTimer := False\<rparr>) \<longrightarrow> searchData (s\<lparr>debounceTimer := False\<rparr>) = None"
    by simp
  from handleSearch_loading_inv [OF this] inv show ?thesis
    using DebounceElapsed by simp
next
  case (LoadSettled outcome)
  assume "isLoading s \<longrightarrow> searchData s = None"
  then show ?thesis using LoadSettled by (simp add: loadSearchData_resume_def)
qed (auto simp: toggleSearch_def openSearch_def closeSearch_def loadSearchData_def Let_def)

lemma run_loading_inv:
  "isLoading s \<longrightarrow> searchData s = None \<Longrightarrow>
     isLoading (run opts es s) \<longrightarrow> searchData (run opts es s) = None"
proof (induction es arbitrary: s)
  case Nil
  then show ?case by simp
next
  case (Cons e es)
  from Cons.IH [OF step_loading_inv [OF Cons.prems]] show ?case by simp
qed

lemma reachable_loading: "isLoading (run opts es initial) \<Longrightarrow> searchData (run opts es initial) = None"
  using run_loading_inv [of initial opts es] by (simp add: initial_def)

text \<open>
  C7. When the load in flight fails, in any state the session can reach, the error
  message is shown, no collection is stored, \<open>isLoading\<close> is reset and nothing else
  changes; a later search for a keyword of at least \<open>minChars\<close> characters (after
  trimming) issues a new fetch, and when that fetch delivers the index the collection is
  stored.
\<close>

theorem load_failure_recovered:
  "load_failed outcome \<Longrightarrow> isLoading (run opts es initial) \<Longrightarrow>
     (let s = run opts es initial;
          s' = step opts (LoadSettled outcome) s
      in resultsArea s' = ErrorMsg \<and> searchData s' = None \<and> \<not> isLoading s' \<and>
         fetches s' = fetches s \<and> isOpen s' = isOpen s \<and> inputValue s' = inputValue s \<and>
         (\<forall>q. minChars opts \<le> length (trim q) \<longrightarrow>
            (let s'' = run opts [Input q, DebounceElapsed] s'
             in fetches s'' = fetches s' + 1 \<and> isLoading s'' \<and> resultsArea s'' = LoadingMsg \<and>
                (\<forall>docs. searchData (step opts (LoadSettled (Loaded docs)) s'') = Some docs))))"
proof -
  assume f: "load_failed outcome" and l: "isLoading (run opts es initial)"
  define s where "s = run opts es initial"
  define s' where "s' = step opts (LoadSettled outcome) s"
  have n: "searchData s = None" unfolding s_def using l by (rule reachable_loading)
  have e: "s' = s\<lparr>resultsArea := ErrorMsg, isLoading := False\<rparr>"
    using f l by (cases outcome) (simp_all add: s'_def s_def loadSearchData_resume_def)
  have retry: "fetches s'' = fetches s' + 1 \<and> isLoading s'' \<and> resultsArea s'' = LoadingMsg \<and>
      (\<forall>docs. searchData (step opts (LoadSettled (Loaded docs)) s'') = Some docs)"
    if q: "minChars opts \<le> length (trim q)" and d: "s'' = run opts [Input q, DebounceElapsed] s'"
    for q s''
  proof -
    have "s'' = loadSearchData (s'\<lparr>inputValue := q, debounceTimer := False\<rparr>)"
      using q n by (simp add: d e handleSearch_def)
    then have x: "s'' = s'\<lparr>inputValue := q, debounceTimer := False, isLoading := True,
        resultsArea := LoadingMsg, fetches := fetches s' + 1\<rparr>"
      by (simp add: loadSearchData_def)
    have "searchData (step opts (LoadSettled (Loaded docs)) s'') = Some docs" for docs
      by (simp add: x loadSearchData_resume_def handleSearch_def renderResults_def Let_def)
    then show ?thesis by (simp add: x)
  qed
  have "resultsArea s' = ErrorMsg \<and> searchData s' = None \<and> \<not> isLoading s' \<and>
         fetches s' = fetches s \<and> isOpen s' = isOpen s \<and> inputValue s' = inputValue s"
    by (simp add: e n)
  with retry show ?thesis unfolding Let_def s_def [symmetric] s'_def [symmetric] by blast
qed

theorem load_failure_recovered_witness:
  "load_failed ResponseNotOk \<and> isLoading (run default_options [ToggleClick] initial) \<and>
   resultsArea (run default_options [ToggleClick, LoadSettled ResponseNotOk] initial) = ErrorMsg \<and>
   searchData (run default_options [ToggleClick, LoadSettled ResponseNotOk] initial) = None \<and>
   fetches (run default_options [ToggleClick, LoadSettled ResponseNotOk] initial) = 1 \<and>
   fetches (run default_options
              [ToggleClick, LoadSettled ResponseNotOk, Input ''rust'', DebounceElapsed] initial) = 2"
proof -
  have f: "load_failed ResponseNotOk" by simp
  have l: "isLoading (run default_options [ToggleClick] initial)" by code_simp
  have m: "minChars default_options \<le> length (trim ''rust'')" by code_simp
  have c: "fetches (run default_options [ToggleClick] initial) = 1" by code_simp
  have r: "run default_options [ToggleClick, LoadSettled ResponseNotOk] initial
      = step default_options (LoadSettled ResponseNotOk) (run default_options [ToggleClick] initial)"
    by simp
  have r2: "run default_options
              [ToggleClick, LoadSettled ResponseNotOk, Input ''rust'', DebounceElapsed] initial
      = run default_options [Input ''rust'', DebounceElapsed]
          (step default_options (LoadSettled ResponseNotOk) (run default_options [ToggleClick] initial))"
    by simp
  from load_failure_recovered [OF f l] m c show ?thesis
    unfolding Let_def r r2 using f l by auto
qed


text \<open>
  C8 (amended). \<open>closeSearch\<close> does not clear the debounce timer, and nothing checks
  \<open>isOpen\<close> before the results area is written. But \<open>closeSearch\<close> empties the input
  element, so when \<open>minChars\<close> is at least 1 a timer that fires after the close finds an
  empty keyword: the results area stays empty, \<open>search\<close> is not called and no fetch is
  issued. A load that delivers the index after the close leaves the results area empty
  too. A load that fails after the close still shows its error message in the closed
  widget.
\<close>

theorem close_leaves_timer_pending:
  "0 < minChars opts \<Longrightarrow>
     (let c = closeSearch s
      in debounceTimer c = debounceTimer s \<and>
         resultsArea (step opts DebounceElapsed c) = Empty \<and>
         scans (step opts DebounceElapsed c) = scans s \<and>
         fetches (step opts DebounceElapsed c) = fetches s \<and>
         (\<forall>docs. resultsArea (step opts (LoadSettled (Loaded docs)) c) = Empty \<and>
                 scans (step opts (LoadSettled (Loaded docs)) c) = scans s) \<and>
         (\<forall>outcome. load_failed outcome \<and> isLoading s \<longrightarrow>
                 resultsArea (step opts (LoadSettled outcome) c) = ErrorMsg \<and>
                 \<not> isOpen (step opts (LoadSettled outcome) c)))"
proof -
  assume m: "0 < minChars opts"
  define c where "c = closeSearch s"
  have t: "trim (inputValue c) = []" by (simp add: c_def closeSearch_def trim_def)
  have h: "handleSearch opts (inputValue c) x = x\<lparr>resultsArea := Empty\<rparr>" for x
    using m t by (simp add: handleSearch_def)
  have 1: "debounceTimer c = debounceTimer s" by (simp add: c_def closeSearch_def)
  have 2: "resultsArea (step opts DebounceElapsed c) = Empty \<and>
         scans (step opts DebounceElapsed c) = scans s \<and>
         fetches (step opts DebounceElapsed c) = fetches s"
    using h [of "c\<lparr>debounceTimer := False\<rparr>"] by (simp add: c_def closeSearch_def)
  have 3: "resultsArea (step opts (LoadSettled (Loaded docs)) c) = Empty \<and>
                 scans (step opts (LoadSettled (Loaded docs)) c) = scans s" for docs
    by (simp add: loadSearchData_resume_def c_def closeSearch_def)
  have 4: "resultsArea (step opts (LoadSettled outcome) c) = ErrorMsg \<and>
                 \<not> isOpen (step opts (LoadSettled outcome) c)"
    if "load_failed outcome \<and> isLoading s" for outcome
    using that by (cases outcome) (simp_all add: loadSearchData_resume_def c_def closeSearch_def)
  show ?thesis unfolding Let_def c_def [symmetric] using 1 2 3 4 by blast
qed

theorem close_leaves_timer_pending_witness:
  "0 < minChars default_options \<and>
   debounceTimer (run default_options [ToggleClick, Input ''rust''] initial) \<and>
   debounceTimer (run default_options [ToggleClick, Input ''rust'', CloseClick] initial) \<and>
   resultsArea (run default_options [ToggleClick, Input ''rust'', CloseClick, DebounceElapsed]
                  initial) = Empty"
proof -
  define s where "s = run default_options [ToggleClick, Input ''rust''] initial"
  have m: "0 < minChars default_options" by code_simp
  have d: "debounceTimer s" unfolding s_def by code_simp
  have r: "run default_options [ToggleClick, Input ''rust'', CloseClick] initial = closeSearch s"
    unfolding s_def by simp
  have r2: "run default_options [ToggleClick, Input ''rust'', CloseClick, DebounceElapsed] initial
      = step default_options DebounceElapsed (closeSearch s)"
    unfolding s_def by simp
  have "debounceTimer (closeSearch s) = debounceTimer s \<and>
      resultsArea (step default_options DebounceElapsed (closeSearch s)) = Empty"
    using close_leaves_timer_pending [OF m, of s] unfolding Let_def by blast
  with m d show ?thesis unfolding r r2 s_def [symmetric] by blast
qed

text \<open>
  C8 as stated fails. After open, input and close the timer is still pending. A load
  that fails after the close writes the error message into the closed widget. And an
  input event that reaches the closed widget is searched and rendered when its timer
  fires, although \<open>isOpen\<close> is false.
\<close>

theorem close_cancels_timer_counterexample:
  "debounceTimer (run default_options [ToggleClick, Input ''rust'', CloseClick] initial) \<and>
   \<not> isOpen (run default_options [ToggleClick, Input ''rust'', CloseClick] initial) \<and>
   \<not> isOpen (run default_options [ToggleClick, CloseClick, LoadSettled ResponseNotOk] initial) \<and>
   resultsArea (run default_options [ToggleClick, CloseClick, LoadSettled ResponseNotOk] initial)
     = ErrorMsg \<and>
   \<not> isOpen (run default_options
     [ToggleClick, LoadSettled (Loaded [doc_rust, doc_go]), CloseClick, Input ''rust'',
      DebounceElapsed] initial) \<and>
   resultsArea (run default_options
     [ToggleClick, LoadSettled (Loaded [doc_rust, doc_go]), CloseClick, Input ''rust'',
      DebounceElapsed] initial)
     = Results (search ''rust'' [doc_rust, doc_go]) ''rust''"
  by code_simp

lemma handleSearch_loaded:
  "searchData s = Some d \<Longrightarrow> \<not> isLoading s \<Longrightarrow>
     searchData (handleSearch opts q s) = Some d \<and> \<not> isLoading (handleSearch opts q s) \<and>
     fetches (handleSearch opts q s) = fetches s"
  by (simp add: handleSearch_def renderResults_def Let_def)

lemma step_loaded:
  "searchData s = Some d \<Longrightarrow> \<not> isLoading s \<Longrightarrow>
     searchData (step opts e s) = Some d \<and> \<not> isLoading (step opts e s) \<and>
     fetches (step opts e s) = fetches s"
proof (cases e)
  case DebounceElapsed
  assume "searchData s = Some d" "\<not> isLoading s"
  then have "searchData (s\<lparr>debounceTimer := False\<rparr>) = Some d"
    "\<not> isLoading (s\<lparr>debounceTimer := False\<rparr>)" by simp_all
  from handleSearch_loaded [OF this, of opts "inputValue s"] \<open>searchData s = Some d\<close> \<open>\<not> isLoading s\<close>
  show ?thesis using DebounceElapsed by simp
qed (auto simp: toggleSearch_def openSearch_def closeSearch_def Let_def)

lemma run_loaded:
  "searchData s = Some d \<Longrightarrow> \<not> isLoading s \<Longrightarrow>
     searchData (run opts es s) = Some d \<and> \<not> isLoading (run opts es s) \<and>
     fetches (run opts es s) = fetches s"
proof (induction es arbitrary: s)
  case Nil
  then show ?case by simp
next
  case (Cons e es)
  from step_loaded [OF Cons.prems, of opts e]
  have 1: "searchData (step opts e s) = Some d" and 2: "\<not> isLoading (step opts e s)"
    and 3: "fetches (step opts e s) = fetches s" by simp_all
  from Cons.IH [OF 1 2] 3 show ?case by simp
qed

text \<open>
  C9. \<open>closeSearch\<close> resets the open flag and the \<open>is-open\<close> class, empties the input
  element and the results area, and changes nothing else: the collection, the loading
  flag, the timer and the counters are as before. So when a collection is loaded,
  opening again only sets the flag and the class and no fetch is issued; indeed no
  events after the close issue a fetch or change the collection.
\<close>

theorem closeSearch_frame:
  "closeSearch s = s\<lparr>isOpen := False, formWrapOpen := False, inputValue := [],
                      resultsArea := Empty\<rparr> \<and>
   inputValue (closeSearch s) = [] \<and> resultsArea (closeSearch s) = Empty \<and>
   searchData (closeSearch s) = searchData s \<and> isLoading (closeSearch s) = isLoading s \<and>
   debounceTimer (closeSearch s) = debounceTimer s \<and>
   fetches (closeSearch s) = fetches s \<and> scans (closeSearch s) = scans s \<and>
   (searchData s \<noteq> None \<longrightarrow>
      openSearch (closeSearch s) = (closeSearch s)\<lparr>isOpen := True, formWrapOpen := True\<rparr> \<and>
      fetches (openSearch (closeSearch s)) = fetches s \<and>
      isLoading (openSearch (closeSearch s)) = isLoading s \<and>
      searchData (openSearch (closeSearch s)) = searchData s) \<and>
   (searchData s \<noteq> None \<and> \<not> isLoading s \<longrightarrow>
      (\<forall>es. fetches (run opts es (closeSearch s)) = fetches s \<and>
            searchData (run opts es (closeSearch s)) = searchData s))"
proof -
  have a: "closeSearch s = s\<lparr>isOpen := False, formWrapOpen := False, inputValue := [],
                      resultsArea := Empty\<rparr>"
    by (simp add: closeSearch_def)
  have b: "openSearch (closeSearch s) = (closeSearch s)\<lparr>isOpen := True, formWrapOpen := True\<rparr>"
    if "searchData s \<noteq> None"
    using that by (auto simp: closeSearch_def openSearch_def Let_def)
  have c: "fetches (run opts es (closeSearch s)) = fetches s \<and>
            searchData (run opts es (closeSearch s)) = searchData s"
    if "searchData s \<noteq> None \<and> \<not> isLoading s" for es
  proof -
    from that obtain d where d: "searchData s = Some d" by auto
    have "searchData (closeSearch s) = Some d" "\<not> isLoading (closeSearch s)"
      using d that by (simp_all add: closeSearch_def)
    from run_loaded [OF this, of opts es] d show ?thesis by (simp add: closeSearch_def)
  qed
  show ?thesis
  proof (intro conjI impI allI)
    show "closeSearch s = s\<lparr>isOpen := False, formWrapOpen := False, inputValue := [],
                      resultsArea := Empty\<rparr>" by (rule a)
    show "openSearch (closeSearch s) = (closeSearch s)\<lparr>isOpen := True, formWrapOpen := True\<rparr>"
      if "searchData s \<noteq> None" using that by (rule b)
    show "fetches (openSearch (closeSearch s)) = fetches s" if "searchData s \<noteq> None"
      using b [OF that] by (simp add: closeSearch_def)
    show "isLoading (openSearch (closeSearch s)) = isLoading s" if "searchData s \<noteq> None"
      using b [OF that] by (simp add: closeSearch_def)
    show "searchData (openSearch (closeSearch s)) = searchData s" if "searchData s \<noteq> None"
      using b [OF that] by (simp add: closeSearch_def)
    show "fetches (run opts es (closeSearch s)) = fetches s"
      if "searchData s \<noteq> None \<and> \<not> isLoading s" for es using c [OF that] by simp
    show "searchData (run opts es (closeSearch s)) = searchData s"
      if "searchData s \<noteq> None \<and> \<not> isLoading s" for es using c [OF that] by simp
  qed (simp_all add: closeSearch_def)
qed

theorem closeSearch_frame_witness:
  "searchData ready_session \<noteq> None \<and> \<not> isLoading ready_session \<and>
   fetches ready_session = 1 \<and>
   searchData (run default_options [CloseClick, ToggleClick, Input ''rust'', DebounceElapsed]
                 ready_session) = Some [doc_rust, doc_go] \<and>
   fetches (run default_options [CloseClick, ToggleClick, Input ''rust'', DebounceElapsed]
              ready_session) = 1"
proof -
  have n: "searchData ready_session \<noteq> None" by code_simp
  have l: "\<not> isLoading ready_session" by code_simp
  have d: "searchData ready_session = Some [doc_rust, doc_go]" by code_simp
  have f: "fetches ready_session = 1" by code_simp
  have r: "run default_options [CloseClick, ToggleClick, Input ''rust'', DebounceElapsed]
             ready_session
      = run default_options [ToggleClick, Input ''rust'', DebounceElapsed]
          (closeSearch ready_session)"
    by simp
  have "fetches (run default_options [ToggleClick, Input ''rust'', DebounceElapsed]
          (closeSearch ready_session)) = fetches ready_session \<and>
        searchData (run default_options [ToggleClick, Input ''rust'', DebounceElapsed]
          (closeSearch ready_session)) = searchData ready_session"
    using closeSearch_frame [of ready_session default_options] n l by blast
  with n l d f show ?thesis unfolding r by simp
qed

section \<open>Properties of \<open>highlight\<close>\<close>






























text \<open>
  A pattern that is not escaped is interpreted: in \<open>(a.b*)\<close> the dot matches any
  character and the star repeats the \<open>b\<close>, and \<open>(C++)\<close> is rejected.
\<close>

lemma unescaped_pattern_is_interpreted:
  "new_RegExp_gi ''(a.b*)''
     = Some [[Atom (Lit (CHR ''a'')) One, Atom AnyChar One, Atom (Lit (CHR ''b'')) Star]] \<and>
   replace_global [[Atom (Lit (CHR ''a'')) One, Atom AnyChar One, Atom (Lit (CHR ''b'')) Star]]
       [RLit (CHR ''<''), RGroup1, RLit (CHR ''>'')] True ''a.b* AXBB'' = ''<a.b>* <AXBB>'' \<and>
   new_RegExp_gi ''(C++)'' = None"
  by code_simp



end
